theory Spec2Isabelle
  imports Complex_Main "HOL-Library.Monad_Syntax"
begin

section \<open>Conventions of the embedding\<close>

text \<open>
  The three C files are embedded shallowly.

  \<^item> A C \<open>double\<close> is a \<^typ>\<open>real\<close>: arithmetic is exact, so rounding, overflow,
    underflow, infinities and signed zeros are outside the model. The one
    not-a-number the programs produce themselves, the \<open>NAN\<close> stored by the
    smoother, is a constructor of the type of the cells of \<open>ko_smooth\<close>.
    HOL's division is total (\<open>x / 0 = 0\<close>); the theorems below that rely on the value of
    a quotient carry the hypotheses under which the divisor is not zero.
    Where the rounding of the arithmetic decides a property, the smoother is embedded a
    second time, in binary64 arithmetic, with every operation rounded.
  \<^item> A C \<open>int\<close> is an \<^typ>\<open>int\<close>. The only integer arithmetic of the programs is
    \<open>np - 1\<close>, \<open>k + 1\<close>, \<open>k - 1\<close> and the loop counters, none of which can overflow
    for a non-negative count; the cast \<open>(int)\<close> of a \<open>double\<close> is written out, with
    its range.
  \<^item> An array passed as \<open>double *\<close> is a list, and the caller's buffers are taken
    to be pairwise disjoint. Every access \<open>a[i]\<close> is checked: an access outside the
    list is undefined behaviour in C and the value \<open>None\<close> here, which the whole
    call then returns.
\<close>

definition rd :: "'a list \<Rightarrow> int \<Rightarrow> 'a option" where
  "rd xs i = (if 0 \<le> i \<and> i < int (length xs) then Some (xs ! nat i) else None)"

definition wr :: "'a list \<Rightarrow> int \<Rightarrow> 'a \<Rightarrow> 'a list option" where
  "wr xs i v = (if 0 \<le> i \<and> i < int (length xs) then Some (xs[nat i := v]) else None)"

text \<open>
  The loop \<open>for (k = k0; k < n; k++) body\<close> on a state \<open>s\<close>; a \<open>continue\<close> in the
  body is a body that returns at once.
\<close>

function for_loop :: "(int \<Rightarrow> 's \<Rightarrow> 's option) \<Rightarrow> int \<Rightarrow> int \<Rightarrow> 's \<Rightarrow> 's option" where
  "for_loop body n k s =
     (if k < n
      then (case body k s of None \<Rightarrow> None | Some s' \<Rightarrow> for_loop body n (k + 1) s')
      else Some s)"
  by pat_completeness auto
termination
  by (relation "measure (\<lambda>(body, n, k, s). nat (n - k))") auto

declare for_loop.simps [simp del]


section \<open>The oscillator response integrator (cfuncs.c)\<close>

text \<open>
  The values computed once per call, before the first step. Both files compute the same
  ones from \<open>period\<close>, \<open>damping\<close> and the step \<open>dt\<close>; they differ in where \<open>dt\<close>
  comes from.
\<close>

record osc_consts =
  c_dt :: real
  c_wd :: real
  c_sine :: real
  c_cosine :: real
  c_w2 :: real
  c_w2i :: real
  c_wdi :: real
  c_dw :: real
  c_ddtw3 :: real

definition osc_constants :: "real \<Rightarrow> real \<Rightarrow> real \<Rightarrow> osc_consts" where
  "osc_constants dt period damping =
     (let w = 2 * pi / period;
          d = damping;
          wd = sqrt (1 - d * d) * w;
          e = exp (-1 * d * w * dt);
          sine = e * sin (wd * dt);
          cosine = e * cos (wd * dt);
          w2 = w * w;
          w3 = w2 * w;
          w2i = 1 / w2;
          wdi = 1 / wd;
          dw = d * w;
          ddtw3 = 2 * d / (dt * w3)
      in \<lparr>c_dt = dt, c_wd = wd, c_sine = sine, c_cosine = cosine, c_w2 = w2,
          c_w2i = w2i, c_wdi = wdi, c_dw = dw, c_ddtw3 = ddtw3\<rparr>)"

text \<open>
  The arithmetic of one step, from \<open>gw2i = g * w2i\<close> to the three values stored. The
  code before the loop is this with \<open>0\<close> for \<open>sdis[k - 1]\<close> and \<open>svel[k - 1]\<close>.
\<close>

definition osc_step :: "osc_consts \<Rightarrow> real \<Rightarrow> real \<Rightarrow> real \<Rightarrow> real \<Rightarrow> real \<times> real \<times> real" where
  "osc_step c sdis_prev svel_prev g dug =
     (let gw2i = g * c_w2i c;
          dugw2i = dug * c_w2i c;
          dugw2idt = dugw2i / c_dt c;
          b = sdis_prev + gw2i - c_ddtw3 c * dug;
          a = c_wdi c * svel_prev + c_dw c * c_wdi c * b + c_wdi c * dugw2idt;
          sd = a * c_sine c + b * c_cosine c + c_ddtw3 c * dug - gw2i - dugw2i;
          sv = a * (c_wd c * c_cosine c - c_dw c * c_sine c) -
               b * (c_wd c * c_sine c + c_dw c * c_cosine c) -
               dugw2idt;
          sa = -2 * c_dw c * sv - c_w2 c * sd
      in (sd, sv, sa))"

text \<open>The three output buffers.\<close>

record resp =
  sacc :: "real list"
  svel :: "real list"
  sdis :: "real list"

definition store_step :: "int \<Rightarrow> real \<times> real \<times> real \<Rightarrow> resp \<Rightarrow> resp option" where
  "store_step k v st =
     (case v of (sd, sv, sa) \<Rightarrow>
        do {
          sdis' \<leftarrow> wr (sdis st) k sd;
          svel' \<leftarrow> wr (svel st) k sv;
          sacc' \<leftarrow> wr (sacc st) k sa;
          Some \<lparr>sacc = sacc', svel = svel', sdis = sdis'\<rparr>
        })"

subsection \<open>The current file: src/src/gmprocess/metrics/cfuncs.c\<close>

definition first_step :: "osc_consts \<Rightarrow> real list \<Rightarrow> resp \<Rightarrow> resp option" where
  "first_step c acc st =
     do {
       g \<leftarrow> rd acc 0;
       a1 \<leftarrow> rd acc 1;
       let dug = a1 - g;
       store_step 0 (osc_step c 0 0 g dug) st
     }"

definition loop_step :: "osc_consts \<Rightarrow> real list \<Rightarrow> int \<Rightarrow> resp \<Rightarrow> resp option" where
  "loop_step c acc k st =
     do {
       g \<leftarrow> rd acc k;
       a1 \<leftarrow> rd acc (k + 1);
       let dug = a1 - g;
       sd_prev \<leftarrow> rd (sdis st) (k - 1);
       sv_prev \<leftarrow> rd (svel st) (k - 1);
       store_step k (osc_step c sd_prev sv_prev g dug) st
     }"

definition calculate_spectrals_c ::
  "real list \<Rightarrow> int \<Rightarrow> real \<Rightarrow> real \<Rightarrow> real \<Rightarrow> real list \<Rightarrow> real list \<Rightarrow> real list \<Rightarrow> resp option" where
  "calculate_spectrals_c acc np dt period damping sacc0 svel0 sdis0 =
     (let c = osc_constants dt period damping in
      do {
        st \<leftarrow> first_step c acc \<lparr>sacc = sacc0, svel = svel0, sdis = sdis0\<rparr>;
        for_loop (loop_step c acc) (np - 1) 1 st
      })"

subsection \<open>The legacy file: src/gmprocess/metrics/cfuncs.c\<close>

text \<open>
  The cast \<open>(int) x\<close> of a \<open>double\<close> drops the fractional part (it rounds towards
  zero) and is undefined when the result is not an \<open>int\<close> of 32 bits.
\<close>

definition int_cast :: "real \<Rightarrow> int option" where
  "int_cast x =
     (let t = (if x < 0 then \<lceil>x\<rceil> else \<lfloor>x\<rfloor>)
      in if - 2147483648 \<le> t \<and> t \<le> 2147483647 then Some t else None)"

text \<open>\<open>dt_in\<close> and \<open>ns\<close>, lines 21 and 22.\<close>

definition legacy_dt_in :: "real list \<Rightarrow> real option" where
  "legacy_dt_in tms =
     do {
       t1 \<leftarrow> rd tms 1;
       t0 \<leftarrow> rd tms 0;
       Some (t1 - t0)
     }"

definition legacy_ns :: "real list \<Rightarrow> real \<Rightarrow> real option" where
  "legacy_ns tms period =
     do {
       dt_in \<leftarrow> legacy_dt_in tms;
       n \<leftarrow> int_cast (10 * dt_in / period - 0.01);
       Some (real_of_int n + 1)
     }"

definition first_step_legacy :: "osc_consts \<Rightarrow> real \<Rightarrow> real list \<Rightarrow> resp \<Rightarrow> resp option" where
  "first_step_legacy c ns acc st =
     do {
       g \<leftarrow> rd acc 0;
       a1 \<leftarrow> rd acc 1;
       let dug = (a1 - g) / ns;
       store_step 0 (osc_step c 0 0 g dug) st
     }"

definition loop_step_legacy :: "osc_consts \<Rightarrow> real \<Rightarrow> real list \<Rightarrow> int \<Rightarrow> resp \<Rightarrow> resp option" where
  "loop_step_legacy c ns acc k st =
     do {
       g \<leftarrow> rd acc k;
       a1 \<leftarrow> rd acc (k + 1);
       let dug = (a1 - g) / ns;
       sd_prev \<leftarrow> rd (sdis st) (k - 1);
       sv_prev \<leftarrow> rd (svel st) (k - 1);
       store_step k (osc_step c sd_prev sv_prev g dug) st
     }"

definition calculate_spectrals_c_legacy ::
  "real list \<Rightarrow> real list \<Rightarrow> int \<Rightarrow> real \<Rightarrow> real \<Rightarrow> real list \<Rightarrow> real list \<Rightarrow> real list \<Rightarrow> resp option" where
  "calculate_spectrals_c_legacy tms acc np period damping sacc0 svel0 sdis0 =
     do {
       dt_in \<leftarrow> legacy_dt_in tms;
       ns \<leftarrow> legacy_ns tms period;
       let dt = dt_in / ns;
       let c = osc_constants dt period damping;
       st \<leftarrow> first_step_legacy c ns acc \<lparr>sacc = sacc0, svel = svel0, sdis = sdis0\<rparr>;
       for_loop (loop_step_legacy c ns acc) (np - 1) 1 st
     }"


section \<open>The Konno-Ohmachi smoother (smoothing.c)\<close>

text \<open>
  An entry of \<open>ko_smooth\<close>: the constant \<open>NAN\<close> of \<open>math.h\<close>, or a number.
\<close>

datatype cell = NAN | Val real

text \<open>
  The body of the loop over \<open>j\<close>, lines 33 to 47, on the pair
  \<open>(total, window_total)\<close>, written \<open>(tot, window_total)\<close>. The first branch is the \<open>continue\<close>; \<open>spec[j]\<close> is read
  only past it.
\<close>

definition ko_inner_step ::
  "real list \<Rightarrow> real list \<Rightarrow> real \<Rightarrow> real \<Rightarrow> real \<Rightarrow> real \<Rightarrow> int \<Rightarrow> real \<times> real \<Rightarrow> (real \<times> real) option" where
  "ko_inner_step spec freqs bandwidth max_ratio min_ratio fc j s =
     (case s of (tot, window_total) \<Rightarrow>
        do {
          freq \<leftarrow> rd freqs j;
          let frat = freq / fc;
          if freq < 0.000001 \<or> frat > max_ratio \<or> frat < min_ratio
          then Some (tot, window_total)
          else do {
            let window =
              (if \<bar>freq - fc\<bar> < 0.000001 then 1
               else (let x = bandwidth * log 10 frat;
                         window = sin x / x;
                         window = window * window;
                         window = window * window
                     in window));
            sp \<leftarrow> rd spec j;
            Some (tot + window * sp, window_total + window)
          }
        })"

text \<open>The loop over \<open>j\<close> with its initialisation, lines 30 to 48.\<close>

definition ko_accumulate ::
  "real list \<Rightarrow> real list \<Rightarrow> int \<Rightarrow> real \<Rightarrow> real \<Rightarrow> real \<Rightarrow> real \<Rightarrow> (real \<times> real) option" where
  "ko_accumulate spec freqs np bandwidth max_ratio min_ratio fc =
     for_loop (ko_inner_step spec freqs bandwidth max_ratio min_ratio fc) np 0 (0, 0)"

text \<open>The body of the loop over \<open>i\<close>, lines 25 to 53.\<close>

definition ko_outer_step ::
  "real list \<Rightarrow> real list \<Rightarrow> int \<Rightarrow> real list \<Rightarrow> real \<Rightarrow> real \<Rightarrow> real \<Rightarrow> int \<Rightarrow> cell list \<Rightarrow> cell list option" where
  "ko_outer_step spec freqs np ko_freqs bandwidth max_ratio min_ratio i ko_smooth =
     do {
       fc \<leftarrow> rd ko_freqs i;
       if fc < 0.000001
       then wr ko_smooth i NAN
       else do {
         (tot, window_total) \<leftarrow> ko_accumulate spec freqs np bandwidth max_ratio min_ratio fc;
         if window_total > 0
         then wr ko_smooth i (Val (tot / window_total))
         else wr ko_smooth i NAN
       }
     }"

definition konno_ohmachi_c ::
  "real list \<Rightarrow> real list \<Rightarrow> int \<Rightarrow> real list \<Rightarrow> cell list \<Rightarrow> int \<Rightarrow> real \<Rightarrow> cell list option" where
  "konno_ohmachi_c spec freqs np ko_freqs ko_smooth nko bandwidth =
     (let max_ratio = 10 powr (3 / bandwidth);
          min_ratio = 1 / max_ratio
      in for_loop (ko_outer_step spec freqs np ko_freqs bandwidth max_ratio min_ratio) nko 0 ko_smooth)"


section \<open>The smoother in binary64 arithmetic\<close>

text \<open>
  A finite \<open>double\<close> is a real \<open>m * 2 ^ (e - 52)\<close> with an integer \<open>m\<close> of at most
  53 bits. \<open>rnd\<close> rounds a real to the nearest such number of its binade,
  ties to the even \<open>m\<close>; the exponent is not bounded, so overflow and subnormal
  numbers are outside this model too.
\<close>

definition round_even :: "real \<Rightarrow> int" where
  "round_even q =
     (let f = \<lfloor>q\<rfloor>; r = q - of_int f
      in if r < 1 / 2 then f else if 1 / 2 < r then f + 1 else if even f then f else f + 1)"

definition rnd :: "real \<Rightarrow> real" where
  "rnd x =
     (if x = 0 then 0
      else (let e = \<lfloor>log 2 \<bar>x\<bar>\<rfloor>; ulp = 2 powi (e - 52)
            in of_int (round_even (x / ulp)) * ulp))"






section \<open>Notions used to state the properties\<close>

text \<open>
  The recurrence of the integrator as a function of the step number: step \<open>0\<close> starts
  from a state at rest, step \<open>k + 1\<close> from the displacement and velocity of step \<open>k\<close>.
  \<open>g\<close> and \<open>dug\<close> give the forcing and its increment at each step.
\<close>

fun osc_seq :: "osc_consts \<Rightarrow> (nat \<Rightarrow> real) \<Rightarrow> (nat \<Rightarrow> real) \<Rightarrow> nat \<Rightarrow> real \<times> real \<times> real" where
  "osc_seq c g dug 0 = osc_step c 0 0 (g 0) (dug 0)"
| "osc_seq c g dug (Suc k) =
     (case osc_seq c g dug k of (sd, sv, sa) \<Rightarrow> osc_step c sd sv (g (Suc k)) (dug (Suc k)))"

definition cell3 :: "resp \<Rightarrow> nat \<Rightarrow> real \<times> real \<times> real" where
  "cell3 st j = (sdis st ! j, svel st ! j, sacc st ! j)"

text \<open>
  The state of the buffers when the loop counter is \<open>k\<close>, for buffers \<open>b0\<close> at
  the call: the entries below \<open>k\<close> hold the recurrence, the others are the caller's.
\<close>

definition osc_inv :: "osc_consts \<Rightarrow> real \<Rightarrow> real list \<Rightarrow> resp \<Rightarrow> int \<Rightarrow> resp \<Rightarrow> bool" where
  "osc_inv c ns acc b0 k st \<longleftrightarrow>
     length (sdis st) = length (sdis b0) \<and> length (svel st) = length (svel b0) \<and>
     length (sacc st) = length (sacc b0) \<and>
     (\<forall>j. int j < k \<longrightarrow>
        cell3 st j = osc_seq c (\<lambda>i. acc ! i) (\<lambda>i. (acc ! (i + 1) - acc ! i) / ns) j) \<and>
     (\<forall>j. k \<le> int j \<longrightarrow> cell3 st j = cell3 b0 j)"

text \<open>
  What a call of the integrator leaves of the caller's buffers \<open>b0\<close>: the lengths,
  and every entry from index \<open>np - 1\<close> on. And two results that agree on the entries
  \<open>0\<close> to \<open>np - 2\<close>.
\<close>

definition frame_of :: "int \<Rightarrow> resp \<Rightarrow> resp \<Rightarrow> bool" where
  "frame_of np b0 out \<longleftrightarrow>
     length (sacc out) = length (sacc b0) \<and> length (svel out) = length (svel b0) \<and>
     length (sdis out) = length (sdis b0) \<and>
     (\<forall>j. np - 1 \<le> int j \<longrightarrow>
        sacc out ! j = sacc b0 ! j \<and> svel out ! j = svel b0 ! j \<and> sdis out ! j = sdis b0 ! j)"

definition same_filled :: "int \<Rightarrow> resp \<Rightarrow> resp \<Rightarrow> bool" where
  "same_filled np out out' \<longleftrightarrow>
     (\<forall>j. int j \<le> np - 2 \<longrightarrow>
        sacc out ! j = sacc out' ! j \<and> svel out ! j = svel out' ! j \<and> sdis out ! j = sdis out' ! j)"

text \<open>
  The window of the smoother in the words of its description: the pairs that count for a
  target frequency \<open>fc\<close>, and the weight of a pair.
\<close>

definition ko_in_window :: "real \<Rightarrow> real \<Rightarrow> real \<Rightarrow> real \<Rightarrow> bool" where
  "ko_in_window max_ratio min_ratio fc freq \<longleftrightarrow>
     0.000001 \<le> freq \<and> min_ratio \<le> freq / fc \<and> freq / fc \<le> max_ratio"

definition ko_weight :: "real \<Rightarrow> real \<Rightarrow> real \<Rightarrow> real" where
  "ko_weight bandwidth fc freq =
     (if \<bar>freq - fc\<bar> < 0.000001 then 1
      else (sin (bandwidth * log 10 (freq / fc)) / (bandwidth * log 10 (freq / fc))) ^ 4)"

definition ko_members :: "real list \<Rightarrow> nat \<Rightarrow> real \<Rightarrow> real \<Rightarrow> real \<Rightarrow> nat set" where
  "ko_members freqs n max_ratio min_ratio fc =
     {j. j < n \<and> ko_in_window max_ratio min_ratio fc (freqs ! j)}"

text \<open>The two sums over the pairs among the first \<open>n\<close> that are in the window.\<close>

definition ko_sums :: "real list \<Rightarrow> real list \<Rightarrow> nat \<Rightarrow> real \<Rightarrow> real \<Rightarrow> real \<Rightarrow> real \<Rightarrow> real \<times> real" where
  "ko_sums spec freqs n bandwidth max_ratio min_ratio fc =
     (\<Sum>j\<in>ko_members freqs n max_ratio min_ratio fc. ko_weight bandwidth fc (freqs ! j) * spec ! j,
      \<Sum>j\<in>ko_members freqs n max_ratio min_ratio fc. ko_weight bandwidth fc (freqs ! j))"

text \<open>The value the smoother stores for a target frequency, given the two sums.\<close>

definition ko_result :: "real \<times> real \<Rightarrow> cell" where
  "ko_result s = (case s of (tot, window_total) \<Rightarrow>
     if window_total > 0 then Val (tot / window_total) else NAN)"

text \<open>
  The entry for a target frequency \<open>fc\<close>, and the state of \<open>ko_smooth\<close> when the
  loop counter is \<open>k\<close>, for a buffer \<open>buf\<close> at the call.
\<close>

definition ko_value :: "real list \<Rightarrow> real list \<Rightarrow> int \<Rightarrow> real \<Rightarrow> real \<Rightarrow> real \<Rightarrow> real \<Rightarrow> cell" where
  "ko_value spec freqs np bandwidth max_ratio min_ratio fc =
     (if fc < 0.000001 then NAN
      else ko_result (ko_sums spec freqs (nat np) bandwidth max_ratio min_ratio fc))"

definition ko_inv ::
  "real list \<Rightarrow> real list \<Rightarrow> int \<Rightarrow> real list \<Rightarrow> real \<Rightarrow> real \<Rightarrow> real \<Rightarrow> cell list \<Rightarrow> int \<Rightarrow> cell list \<Rightarrow> bool" where
  "ko_inv spec freqs np ko_freqs bandwidth max_ratio min_ratio buf k out \<longleftrightarrow>
     length out = length buf \<and>
     (\<forall>i. int i < k \<longrightarrow>
        out ! i = ko_value spec freqs np bandwidth max_ratio min_ratio (ko_freqs ! i)) \<and>
     (\<forall>i. k \<le> int i \<longrightarrow> out ! i = buf ! i)"


section \<open>Loops and array accesses\<close>

lemma for_loop_done: "n \<le> k \<Longrightarrow> for_loop body n k s = Some s"
  by (simp add: for_loop.simps)

lemma for_loop_unfold:
  "k < n \<Longrightarrow> for_loop body n k s = (case body k s of None \<Rightarrow> None | Some s' \<Rightarrow> for_loop body n (k + 1) s')"
  by (subst for_loop.simps) simp

lemma for_loop_invariant:
  assumes "I k s" and "k \<le> n"
    and step: "\<And>j t. k \<le> j \<Longrightarrow> j < n \<Longrightarrow> I j t \<Longrightarrow> \<exists>t'. body j t = Some t' \<and> I (j + 1) t'"
  shows "\<exists>s'. for_loop body n k s = Some s' \<and> I n s'"
  using assms
proof (induction "nat (n - k)" arbitrary: k s)
  case 0
  then have "k = n" by simp
  with 0 show ?case by (simp add: for_loop_done)
next
  case (Suc m)
  then have lt: "k < n" by linarith
  from Suc.prems(3)[OF order_refl lt Suc.prems(1)]
  obtain t where t: "body k s = Some t" "I (k + 1) t" by blast
  have "\<exists>s'. for_loop body n (k + 1) t = Some s' \<and> I n s'"
  proof (rule Suc.hyps(1))
    show "m = nat (n - (k + 1))" using Suc.hyps(2) by linarith
    show "I (k + 1) t" by (rule t)
    show "k + 1 \<le> n" using lt by simp
    show "\<And>j t. k + 1 \<le> j \<Longrightarrow> j < n \<Longrightarrow> I j t \<Longrightarrow> \<exists>t'. body j t = Some t' \<and> I (j + 1) t'"
      using Suc.prems(3) by simp
  qed
  then show ?case using lt t by (simp add: for_loop_unfold)
qed

lemma rd_Some: "0 \<le> i \<Longrightarrow> i < int (length xs) \<Longrightarrow> rd xs i = Some (xs ! nat i)"
  by (simp add: rd_def)

lemma wr_Some: "0 \<le> i \<Longrightarrow> i < int (length xs) \<Longrightarrow> wr xs i v = Some (xs[nat i := v])"
  by (simp add: wr_def)


section \<open>The integrator: what a call leaves in the buffers\<close>

lemma store_step_Some:
  assumes "0 \<le> k" "k < int (length (sdis st))" "k < int (length (svel st))" "k < int (length (sacc st))"
  shows "store_step k (sd, sv, sa) st =
           Some \<lparr>sacc = (sacc st)[nat k := sa], svel = (svel st)[nat k := sv], sdis = (sdis st)[nat k := sd]\<rparr>"
  using assms by (simp add: store_step_def wr_Some)

lemma first_step_legacy_inv:
  assumes "2 \<le> length acc" "0 < length (sdis b0)" "0 < length (svel b0)" "0 < length (sacc b0)"
  shows "\<exists>st. first_step_legacy c ns acc b0 = Some st \<and> osc_inv c ns acc b0 1 st"
proof -
  obtain sd sv sa where v: "osc_step c 0 0 (acc ! 0) ((acc ! 1 - acc ! 0) / ns) = (sd, sv, sa)"
    by (metis prod_cases3)
  let ?st = "\<lparr>sacc = (sacc b0)[0 := sa], svel = (svel b0)[0 := sv], sdis = (sdis b0)[0 := sd]\<rparr>"
  have r: "rd acc 0 = Some (acc ! 0)" "rd acc 1 = Some (acc ! 1)"
    using assms(1) by (auto simp: rd_def)
  have "store_step 0 (sd, sv, sa) b0 = Some ?st"
    using assms store_step_Some[of 0 b0 sd sv sa] by auto
  then have "first_step_legacy c ns acc b0 = Some ?st"
    using v by (simp add: first_step_legacy_def r)
  moreover have "osc_inv c ns acc b0 1 ?st"
    using assms v by (auto simp: osc_inv_def cell3_def)
  ultimately show ?thesis by blast
qed

lemma loop_step_legacy_inv:
  assumes inv: "osc_inv c ns acc b0 k st" and k: "1 \<le> k" "k + 1 < int (length acc)"
    and len: "k < int (length (sdis b0))" "k < int (length (svel b0))" "k < int (length (sacc b0))"
  shows "\<exists>st'. loop_step_legacy c ns acc k st = Some st' \<and> osc_inv c ns acc b0 (k + 1) st'"
proof -
  define m where "m = nat (k - 1)"
  have m: "k = int (Suc m)" using k(1) by (simp add: m_def)
  have l: "length (sdis st) = length (sdis b0)" "length (svel st) = length (svel b0)"
    "length (sacc st) = length (sacc b0)"
    using inv by (simp_all add: osc_inv_def)
  have prev: "cell3 st m = osc_seq c (\<lambda>i. acc ! i) (\<lambda>i. (acc ! (i + 1) - acc ! i) / ns) m"
    using inv m by (simp add: osc_inv_def)
  obtain pd pv pa where p: "osc_seq c (\<lambda>i. acc ! i) (\<lambda>i. (acc ! (i + 1) - acc ! i) / ns) m = (pd, pv, pa)"
    by (metis prod_cases3)
  obtain sd sv sa where v: "osc_step c pd pv (acc ! Suc m) ((acc ! (Suc m + 1) - acc ! Suc m) / ns) = (sd, sv, sa)"
    by (metis prod_cases3)
  let ?st = "\<lparr>sacc = (sacc st)[Suc m := sa], svel = (svel st)[Suc m := sv], sdis = (sdis st)[Suc m := sd]\<rparr>"
  have pp: "sdis st ! m = pd" "svel st ! m = pv"
    using prev p by (simp_all add: cell3_def)
  have "loop_step_legacy c ns acc k st = Some ?st"
    using k len l m v pp by (simp add: loop_step_legacy_def rd_Some store_step_Some nat_add_distrib)
  moreover have "osc_inv c ns acc b0 (k + 1) ?st"
    unfolding osc_inv_def
  proof (intro conjI allI impI)
    fix j assume "int j < k + 1"
    then have "j < Suc m \<or> j = Suc m" using m by linarith
    then show "cell3 ?st j = osc_seq c (\<lambda>i. acc ! i) (\<lambda>i. (acc ! (i + 1) - acc ! i) / ns) j"
    proof
      assume "j < Suc m"
      then show ?thesis using inv m by (simp add: osc_inv_def cell3_def)
    next
      assume "j = Suc m"
      then show ?thesis using p v len l m by (simp add: cell3_def)
    qed
  next
    fix j assume "k + 1 \<le> int j"
    then show "cell3 ?st j = cell3 b0 j"
      using inv m by (simp add: osc_inv_def cell3_def)
  qed (simp_all add: l)
  ultimately show ?thesis by blast
qed

lemma first_step_as_legacy: "first_step c acc st = first_step_legacy c 1 acc st"
  by (simp add: first_step_def first_step_legacy_def)

lemma loop_step_as_legacy: "loop_step c acc = loop_step_legacy c 1 acc"
  by (intro ext) (simp add: loop_step_def loop_step_legacy_def)

lemma osc_loop_inv:
  assumes np: "2 \<le> np" "np \<le> int (length acc)"
    and len: "np - 1 \<le> int (length (sdis b0))" "np - 1 \<le> int (length (svel b0))"
      "np - 1 \<le> int (length (sacc b0))"
  shows "\<exists>out. (first_step_legacy c ns acc b0 \<bind> for_loop (loop_step_legacy c ns acc) (np - 1) 1) = Some out
           \<and> osc_inv c ns acc b0 (np - 1) out"
proof -
  have "\<exists>st. first_step_legacy c ns acc b0 = Some st \<and> osc_inv c ns acc b0 1 st"
    using np len by (intro first_step_legacy_inv) auto
  then obtain st where st: "first_step_legacy c ns acc b0 = Some st" "osc_inv c ns acc b0 1 st"
    by blast
  have "\<exists>out. for_loop (loop_step_legacy c ns acc) (np - 1) 1 st = Some out
           \<and> osc_inv c ns acc b0 (np - 1) out"
  proof (rule for_loop_invariant[where I = "osc_inv c ns acc b0"])
    show "osc_inv c ns acc b0 1 st" by (rule st)
    show "1 \<le> np - 1" using np by simp
    fix j t
    assume j: "1 \<le> j" "j < np - 1" and t: "osc_inv c ns acc b0 j t"
    show "\<exists>t'. loop_step_legacy c ns acc j t = Some t' \<and> osc_inv c ns acc b0 (j + 1) t'"
      using t j np len by (intro loop_step_legacy_inv) auto
  qed
  then show ?thesis using st by simp
qed

lemma legacy_ns_Some:
  assumes "legacy_ns tms period = Some ns"
  shows "legacy_dt_in tms = Some (tms ! 1 - tms ! 0)"
  using assms
  by (auto simp: legacy_ns_def legacy_dt_in_def rd_def split: if_splits bind_splits)

lemma legacy_run:
  assumes ns: "legacy_ns tms period = Some ns"
    and np: "2 \<le> np" "np \<le> int (length acc)"
    and len: "np - 1 \<le> int (length sdis0)" "np - 1 \<le> int (length svel0)"
      "np - 1 \<le> int (length sacc0)"
  shows "\<exists>out. calculate_spectrals_c_legacy tms acc np period damping sacc0 svel0 sdis0 = Some out
           \<and> osc_inv (osc_constants ((tms ! 1 - tms ! 0) / ns) period damping) ns acc
                 \<lparr>sacc = sacc0, svel = svel0, sdis = sdis0\<rparr> (np - 1) out"
  using osc_loop_inv[of np acc "\<lparr>sacc = sacc0, svel = svel0, sdis = sdis0\<rparr>"
      "osc_constants ((tms ! 1 - tms ! 0) / ns) period damping" ns] np len
  by (simp add: calculate_spectrals_c_legacy_def ns legacy_ns_Some[OF ns] Let_def)

lemma current_run:
  assumes np: "2 \<le> np" "np \<le> int (length acc)"
    and len: "np - 1 \<le> int (length sdis0)" "np - 1 \<le> int (length svel0)"
      "np - 1 \<le> int (length sacc0)"
  shows "\<exists>out. calculate_spectrals_c acc np dt period damping sacc0 svel0 sdis0 = Some out
           \<and> osc_inv (osc_constants dt period damping) 1 acc
                 \<lparr>sacc = sacc0, svel = svel0, sdis = sdis0\<rparr> (np - 1) out"
  using osc_loop_inv[of np acc "\<lparr>sacc = sacc0, svel = svel0, sdis = sdis0\<rparr>"
      "osc_constants dt period damping" 1] np len
  by (simp add: calculate_spectrals_c_def first_step_as_legacy loop_step_as_legacy Let_def)

lemma osc_inv_recurrence:
  assumes "osc_inv c ns acc b0 n out" "int k < n"
  shows "(sdis out ! k, svel out ! k, sacc out ! k) =
           osc_step c (if k = 0 then 0 else sdis out ! (k - 1)) (if k = 0 then 0 else svel out ! (k - 1))
             (acc ! k) ((acc ! (k + 1) - acc ! k) / ns)"
proof (cases k)
  case 0
  then show ?thesis using assms by (simp add: osc_inv_def cell3_def)
next
  case (Suc m)
  have a: "cell3 out m = osc_seq c (\<lambda>i. acc ! i) (\<lambda>i. (acc ! (i + 1) - acc ! i) / ns) m"
    and b: "cell3 out (Suc m) = osc_seq c (\<lambda>i. acc ! i) (\<lambda>i. (acc ! (i + 1) - acc ! i) / ns) (Suc m)"
    using assms Suc by (simp_all add: osc_inv_def)
  show ?thesis using a[symmetric] b Suc by (simp add: cell3_def)
qed

lemma osc_step_zero: "osc_step c 0 0 0 0 = (0, 0, 0)"
  by (simp add: osc_step_def)

lemma osc_seq_zero:
  assumes "\<And>i. i \<le> k \<Longrightarrow> g i = 0 \<and> dug i = 0"
  shows "osc_seq c g dug k = (0, 0, 0)"
  using assms by (induction k) (simp_all add: osc_step_zero)

lemma osc_step_generic:
  assumes "c_dt c = dt" "c_wd c = wd" "c_sine c = sine" "c_cosine c = cosine"
    "c_w2 c = w\<^sup>2" "c_w2i c = 1 / w\<^sup>2" "c_wdi c = 1 / wd" "c_dw c = damping * w"
    "c_ddtw3 c = ddtw3"
  shows "osc_step c sdis_prev svel_prev g dug =
     (let b = sdis_prev + g / w\<^sup>2 - ddtw3 * dug;
          a = (svel_prev + damping * w * b + dug / (w\<^sup>2 * dt)) / wd;
          sd = a * sine + b * cosine + ddtw3 * dug - g / w\<^sup>2 - dug / w\<^sup>2;
          sv = a * (wd * cosine - damping * w * sine) - b * (wd * sine + damping * w * cosine)
               - dug / (w\<^sup>2 * dt)
      in (sd, sv, - 2 * damping * w * sv - w\<^sup>2 * sd))"
  by (simp add: osc_step_def assms Let_def add_divide_distrib mult.commute[of "1 / wd"]
      mult.assoc)

lemma osc_constants_fields:
  "c_dt (osc_constants dt period damping) = dt"
  "c_wd (osc_constants dt period damping) = 2 * pi / period * sqrt (1 - damping\<^sup>2)"
  "c_sine (osc_constants dt period damping) =
     exp (- damping * (2 * pi / period) * dt) * sin (2 * pi / period * sqrt (1 - damping\<^sup>2) * dt)"
  "c_cosine (osc_constants dt period damping) =
     exp (- damping * (2 * pi / period) * dt) * cos (2 * pi / period * sqrt (1 - damping\<^sup>2) * dt)"
  "c_w2 (osc_constants dt period damping) = (2 * pi / period)\<^sup>2"
  "c_w2i (osc_constants dt period damping) = 1 / (2 * pi / period)\<^sup>2"
  "c_wdi (osc_constants dt period damping) = 1 / (2 * pi / period * sqrt (1 - damping\<^sup>2))"
  "c_dw (osc_constants dt period damping) = damping * (2 * pi / period)"
  "c_ddtw3 (osc_constants dt period damping) = 2 * damping / (dt * (2 * pi / period) ^ 3)"
  by (simp_all add: osc_constants_def Let_def power2_eq_square power3_eq_cube mult.commute)


lemma osc_inv_zero:
  assumes inv: "osc_inv c ns acc b0 n out" and k: "int k < n"
    and z: "\<And>i. i \<le> k + 1 \<Longrightarrow> acc ! i = 0"
  shows "sacc out ! k = 0 \<and> svel out ! k = 0 \<and> sdis out ! k = 0"
proof -
  have "cell3 out k = osc_seq c (\<lambda>i. acc ! i) (\<lambda>i. (acc ! (i + 1) - acc ! i) / ns) k"
    using inv k by (simp add: osc_inv_def)
  also have "\<dots> = (0, 0, 0)"
    by (rule osc_seq_zero) (simp add: z)
  finally show ?thesis by (simp add: cell3_def)
qed

lemma osc_inv_frame: "osc_inv c ns acc b0 (np - 1) out \<Longrightarrow> frame_of np b0 out"
  by (simp add: osc_inv_def frame_of_def cell3_def)

lemma osc_inv_same_filled:
  assumes "osc_inv c ns acc b0 (np - 1) out" "osc_inv c ns acc b1 (np - 1) out'"
  shows "same_filled np out out'"
  unfolding same_filled_def
proof (intro allI impI)
  fix j assume "int j \<le> np - 2"
  then have "int j < np - 1" by simp
  then have "cell3 out j = cell3 out' j"
    using assms by (simp add: osc_inv_def)
  then show "sacc out ! j = sacc out' ! j \<and> svel out ! j = svel out' ! j \<and> sdis out ! j = sdis out' ! j"
    by (simp add: cell3_def)
qed

lemma legacy_ns_eval:
  assumes "2 \<le> length tms"
  shows "legacy_ns tms period =
     map_option (\<lambda>n. real_of_int n + 1) (int_cast (10 * (tms ! 1 - tms ! 0) / period - 0.01))"
proof -
  have "rd tms 0 = Some (tms ! 0)" "rd tms 1 = Some (tms ! 1)"
    using assms by (auto simp: rd_def)
  then show ?thesis
    by (cases "int_cast (10 * (tms ! 1 - tms ! 0) / period - 0.01)")
       (simp_all add: legacy_ns_def legacy_dt_in_def)
qed

lemma int_cast_small: "- 1 < x \<Longrightarrow> x < 1 \<Longrightarrow> int_cast x = Some 0"
  unfolding int_cast_def Let_def
  by (auto simp: ceiling_eq_iff floor_eq_iff)

lemma int_cast_nonneg:
  assumes "- 1 < x" and "x < 2147483648"
  shows "int_cast x = Some (if x < 0 then 0 else \<lfloor>x\<rfloor>)"
proof (cases "x < 0")
  case True
  then have "\<lceil>x\<rceil> = 0" using assms(1) by (simp add: ceiling_eq_iff)
  then show ?thesis using True by (simp add: int_cast_def)
next
  case False
  then have "0 \<le> \<lfloor>x\<rfloor>" by simp
  moreover have "\<lfloor>x\<rfloor> \<le> 2147483647" using assms(2) by (simp add: floor_le_iff)
  ultimately show ?thesis using False by (simp add: int_cast_def)
qed

lemma legacy_ns_one_iff:
  assumes "2 \<le> length tms" and "0 < period" and "tms ! 0 < tms ! 1"
  shows "legacy_ns tms period = Some 1 \<longleftrightarrow> 10 * (tms ! 1 - tms ! 0) / period - 0.01 < 1"
proof -
  define x where "x = 10 * (tms ! 1 - tms ! 0) / period - 0.01"
  have "0 < 10 * (tms ! 1 - tms ! 0) / period" using assms by simp
  then have x: "- 0.01 < x" by (simp add: x_def)
  have "int_cast x = Some 0 \<longleftrightarrow> x < 1"
  proof
    assume "x < 1" then show "int_cast x = Some 0" using x by (intro int_cast_small) auto
  next
    assume a: "int_cast x = Some 0"
    show "x < 1"
    proof (rule ccontr)
      assume "\<not> x < 1"
      then show False using a by (auto simp: int_cast_def Let_def floor_eq_iff split: if_splits)
    qed
  qed
  then show ?thesis
    by (auto simp: legacy_ns_eval[OF assms(1)] x_def)
qed

section \<open>The integrator: properties\<close>

text \<open>
  C1. The current file, for \<open>np \<ge> 2\<close>, \<open>period > 0\<close>, \<open>0 \<le> damping < 1\<close> and
  \<open>dt > 0\<close>, on buffers that hold the \<open>np\<close> samples and the \<open>np - 1\<close> results:
  the call returns, and at every step \<open>k\<close> from \<open>0\<close> to \<open>np - 2\<close> the three values
  stored are those of the closed formulas, with \<open>g = acc[k]\<close>, \<open>dug = acc[k+1] - g\<close>,
  and \<open>b\<close> and \<open>a\<close> formed from \<open>sdis[k-1]\<close> and \<open>svel[k-1]\<close> (both zero at step 0).
\<close>

theorem C1_current_step_formulas:
  assumes "2 \<le> np" and "0 < period" and "0 \<le> damping" and "damping < 1" and "0 < dt"
    and "np \<le> int (length acc)"
    and "np - 1 \<le> int (length sacc0)" and "np - 1 \<le> int (length svel0)"
    and "np - 1 \<le> int (length sdis0)"
    and "int k \<le> np - 2"
  shows "\<exists>out. calculate_spectrals_c acc np dt period damping sacc0 svel0 sdis0 = Some out \<and>
     (let w = 2 * pi / period;
          wd = w * sqrt (1 - damping\<^sup>2);
          e = exp (- damping * w * dt);
          sine = e * sin (wd * dt);
          cosine = e * cos (wd * dt);
          dw = damping * w;
          ddtw3 = 2 * damping / (dt * w ^ 3);
          g = acc ! k;
          dug = acc ! (k + 1) - g;
          sdis_prev = (if k = 0 then 0 else sdis out ! (k - 1));
          svel_prev = (if k = 0 then 0 else svel out ! (k - 1));
          b = sdis_prev + g / w\<^sup>2 - ddtw3 * dug;
          a = (svel_prev + dw * b + dug / (w\<^sup>2 * dt)) / wd
      in sdis out ! k = a * sine + b * cosine + ddtw3 * dug - g / w\<^sup>2 - dug / w\<^sup>2 \<and>
         svel out ! k =
           a * (wd * cosine - dw * sine) - b * (wd * sine + dw * cosine) - dug / (w\<^sup>2 * dt) \<and>
         sacc out ! k = - 2 * damping * w * svel out ! k - w\<^sup>2 * sdis out ! k)"
proof -
  obtain out where run: "calculate_spectrals_c acc np dt period damping sacc0 svel0 sdis0 = Some out"
    and inv: "osc_inv (osc_constants dt period damping) 1 acc
                \<lparr>sacc = sacc0, svel = svel0, sdis = sdis0\<rparr> (np - 1) out"
    using current_run[of np acc sdis0 svel0 sacc0 dt period damping] assms by blast
  have "int k < np - 1" using assms(10) by simp
  from osc_inv_recurrence[OF inv this]
  have "(sdis out ! k, svel out ! k, sacc out ! k) =
          osc_step (osc_constants dt period damping) (if k = 0 then 0 else sdis out ! (k - 1))
            (if k = 0 then 0 else svel out ! (k - 1)) (acc ! k) (acc ! (k + 1) - acc ! k)"
    by simp
  then show ?thesis
    unfolding osc_step_generic[OF osc_constants_fields] using run by (simp add: Let_def)
qed

theorem C1_current_step_formulas_witness:
  "\<exists>out. calculate_spectrals_c [0, 1, 1, 0] 4 (1 / 100) 1 (1 / 20) [7, 7, 7, 7] [8, 8, 8, 8] [9, 9, 9, 9]
           = Some out \<and>
         sacc out ! 1 = - 2 * (1 / 20) * (2 * pi / 1) * svel out ! 1 - (2 * pi / 1)\<^sup>2 * sdis out ! 1"
  using C1_current_step_formulas[of 4 1 "1 / 20" "1 / 100" "[0, 1, 1, 0]" "[7, 7, 7, 7]"
      "[8, 8, 8, 8]" "[9, 9, 9, 9]" 1]
  by (auto simp: Let_def)


text \<open>
  C4. Both files, for \<open>np \<ge> 2\<close>, \<open>period > 0\<close>, \<open>0 \<le> damping < 1\<close> and a positive
  step (\<open>dt > 0\<close>; \<open>times[1] > times[0]\<close> with a sub-step count that the cast
  defines): when \<open>acc[0]\<close> to \<open>acc[np - 1]\<close> are all zero, the call returns and
  \<open>sacc[k]\<close>, \<open>svel[k]\<close> and \<open>sdis[k]\<close> are zero at every filled index \<open>k \<le> np - 2\<close>.
\<close>

theorem C4_zero_input:
  assumes "2 \<le> np" and "0 < period" and "0 \<le> damping" and "damping < 1"
    and "0 < dt"
    and "tms ! 0 < tms ! 1" and "legacy_ns tms period = Some ns"
    and "np \<le> int (length acc)"
    and "np - 1 \<le> int (length sacc0)" and "np - 1 \<le> int (length svel0)"
    and "np - 1 \<le> int (length sdis0)"
    and zero: "\<And>i. int i \<le> np - 1 \<Longrightarrow> acc ! i = 0"
    and "int k \<le> np - 2"
  shows "(\<exists>out. calculate_spectrals_c acc np dt period damping sacc0 svel0 sdis0 = Some out \<and>
            sacc out ! k = 0 \<and> svel out ! k = 0 \<and> sdis out ! k = 0) \<and>
         (\<exists>out. calculate_spectrals_c_legacy tms acc np period damping sacc0 svel0 sdis0 = Some out \<and>
            sacc out ! k = 0 \<and> svel out ! k = 0 \<and> sdis out ! k = 0)"
proof -
  have k: "int k < np - 1" using assms(13) by simp
  have z: "\<And>i. i \<le> k + 1 \<Longrightarrow> acc ! i = 0" using assms(13) by (intro zero) simp
  obtain out where "calculate_spectrals_c acc np dt period damping sacc0 svel0 sdis0 = Some out"
    and "osc_inv (osc_constants dt period damping) 1 acc
           \<lparr>sacc = sacc0, svel = svel0, sdis = sdis0\<rparr> (np - 1) out"
    using current_run[of np acc sdis0 svel0 sacc0 dt period damping] assms by blast
  moreover
  obtain out' where "calculate_spectrals_c_legacy tms acc np period damping sacc0 svel0 sdis0 = Some out'"
    and "osc_inv (osc_constants ((tms ! 1 - tms ! 0) / ns) period damping) ns acc
           \<lparr>sacc = sacc0, svel = svel0, sdis = sdis0\<rparr> (np - 1) out'"
    using legacy_run[of tms period ns np acc sdis0 svel0 sacc0 damping] assms by blast
  ultimately show ?thesis
    using osc_inv_zero[OF _ k z] by blast
qed

theorem C4_zero_input_witness:
  "(\<exists>out. calculate_spectrals_c [0, 0, 0] 3 (1 / 100) 1 (1 / 20) [7, 7, 7] [8, 8, 8] [9, 9, 9] = Some out \<and>
            sacc out ! 1 = 0 \<and> svel out ! 1 = 0 \<and> sdis out ! 1 = 0) \<and>
   (\<exists>out. calculate_spectrals_c_legacy [0, 1 / 100, 2 / 100] [0, 0, 0] 3 1 (1 / 20) [7, 7, 7] [8, 8, 8] [9, 9, 9] = Some out \<and>
            sacc out ! 1 = 0 \<and> svel out ! 1 = 0 \<and> sdis out ! 1 = 0)"
proof -
  have ns: "legacy_ns [0, 1 / 100, 2 / 100] 1 = Some 1"
    by (simp add: legacy_ns_eval int_cast_small)
  have z: "\<And>i. int i \<le> 3 - 1 \<Longrightarrow> [0, 0, 0::real] ! i = 0"
    by (simp add: nth_Cons split: nat.splits)
  show ?thesis
    using C4_zero_input[of 3 1 "1 / 20" "1 / 100" "[0, 1 / 100, 2 / 100]" 1 "[0, 0, 0]"
        "[7, 7, 7]" "[8, 8, 8]" "[9, 9, 9]" 1, OF _ _ _ _ _ _ ns _ _ _ _ z]
    by simp
qed

text \<open>
  C5. Both files, for \<open>np \<ge> 2\<close>: the call returns; it leaves the lengths of the three
  buffers and every entry from index \<open>np - 1\<close> on as the caller passed them; and the
  entries \<open>0\<close> to \<open>np - 2\<close> are all written, that is, they come out the same whatever
  the buffers held before (\<open>sacc1\<close>, \<open>svel1\<close>, \<open>sdis1\<close> are any other buffers).
\<close>

theorem C5_last_entry_untouched:
  assumes "2 \<le> np" and "np \<le> int (length acc)"
    and "np - 1 \<le> int (length sacc0)" and "np - 1 \<le> int (length svel0)"
    and "np - 1 \<le> int (length sdis0)"
    and "np - 1 \<le> int (length sacc1)" and "np - 1 \<le> int (length svel1)"
    and "np - 1 \<le> int (length sdis1)"
    and "legacy_ns tms period = Some ns"
  shows "(\<exists>out out'.
            calculate_spectrals_c acc np dt period damping sacc0 svel0 sdis0 = Some out \<and>
            calculate_spectrals_c acc np dt period damping sacc1 svel1 sdis1 = Some out' \<and>
            frame_of np \<lparr>sacc = sacc0, svel = svel0, sdis = sdis0\<rparr> out \<and>
            same_filled np out out') \<and>
         (\<exists>out out'.
            calculate_spectrals_c_legacy tms acc np period damping sacc0 svel0 sdis0 = Some out \<and>
            calculate_spectrals_c_legacy tms acc np period damping sacc1 svel1 sdis1 = Some out' \<and>
            frame_of np \<lparr>sacc = sacc0, svel = svel0, sdis = sdis0\<rparr> out \<and>
            same_filled np out out')"
proof (rule conjI)
  obtain out where a: "calculate_spectrals_c acc np dt period damping sacc0 svel0 sdis0 = Some out"
    "osc_inv (osc_constants dt period damping) 1 acc
           \<lparr>sacc = sacc0, svel = svel0, sdis = sdis0\<rparr> (np - 1) out"
    using current_run[of np acc sdis0 svel0 sacc0 dt period damping] assms by blast
  obtain out' where b: "calculate_spectrals_c acc np dt period damping sacc1 svel1 sdis1 = Some out'"
    "osc_inv (osc_constants dt period damping) 1 acc
           \<lparr>sacc = sacc1, svel = svel1, sdis = sdis1\<rparr> (np - 1) out'"
    using current_run[of np acc sdis1 svel1 sacc1 dt period damping] assms by blast
  show "\<exists>out out'.
            calculate_spectrals_c acc np dt period damping sacc0 svel0 sdis0 = Some out \<and>
            calculate_spectrals_c acc np dt period damping sacc1 svel1 sdis1 = Some out' \<and>
            frame_of np \<lparr>sacc = sacc0, svel = svel0, sdis = sdis0\<rparr> out \<and>
            same_filled np out out'"
    using a(1) b(1) osc_inv_frame[OF a(2)] osc_inv_same_filled[OF a(2) b(2)] by blast
next
  obtain out where a: "calculate_spectrals_c_legacy tms acc np period damping sacc0 svel0 sdis0 = Some out"
    "osc_inv (osc_constants ((tms ! 1 - tms ! 0) / ns) period damping) ns acc
           \<lparr>sacc = sacc0, svel = svel0, sdis = sdis0\<rparr> (np - 1) out"
    using legacy_run[of tms period ns np acc sdis0 svel0 sacc0 damping] assms by blast
  obtain out' where b: "calculate_spectrals_c_legacy tms acc np period damping sacc1 svel1 sdis1 = Some out'"
    "osc_inv (osc_constants ((tms ! 1 - tms ! 0) / ns) period damping) ns acc
           \<lparr>sacc = sacc1, svel = svel1, sdis = sdis1\<rparr> (np - 1) out'"
    using legacy_run[of tms period ns np acc sdis1 svel1 sacc1 damping] assms by blast
  show "\<exists>out out'.
            calculate_spectrals_c_legacy tms acc np period damping sacc0 svel0 sdis0 = Some out \<and>
            calculate_spectrals_c_legacy tms acc np period damping sacc1 svel1 sdis1 = Some out' \<and>
            frame_of np \<lparr>sacc = sacc0, svel = svel0, sdis = sdis0\<rparr> out \<and>
            same_filled np out out'"
    using a(1) b(1) osc_inv_frame[OF a(2)] osc_inv_same_filled[OF a(2) b(2)] by blast
qed

theorem C5_last_entry_untouched_witness:
  "\<exists>out. calculate_spectrals_c [0, 1, 1, 0] 4 (1 / 100) 1 (1 / 20) [7, 7, 7, 7] [8, 8, 8, 8] [9, 9, 9, 9]
            = Some out \<and>
          sacc out ! 3 = 7 \<and> svel out ! 3 = 8 \<and> sdis out ! 3 = 9"
proof -
  have ns: "legacy_ns [0, 1 / 100] 1 = Some 1"
    by (simp add: legacy_ns_eval int_cast_small)
  show ?thesis
    using C5_last_entry_untouched[of 4 "[0, 1, 1, 0]" "[7, 7, 7, 7]" "[8, 8, 8, 8]" "[9, 9, 9, 9]"
        "[0, 0, 0]" "[0, 0, 0]" "[0, 0, 0]" "[0, 1 / 100]" 1 1 "1 / 100" "1 / 20", OF _ _ _ _ _ _ _ _ ns]
    by (auto simp: frame_of_def)
qed

text \<open>
  C7, as the description states it: with \<open>period > 0\<close> and \<open>times[1] > times[0]\<close>
  the sub-step count would be \<open>floor (10 * dt / period - 0.01) + 1\<close>. The cast rounds
  towards zero, not down: for \<open>times = [0, 0.0005]\<close> and \<open>period = 1\<close> the argument is
  \<open>- 0.005\<close>, the code computes \<open>ns = 1\<close>, and the formula gives \<open>0\<close>.
\<close>

theorem C7_counterexample:
  "(0::real) < 1 \<and> [0, 1 / 2000] ! 0 < [0, 1 / 2000 :: real] ! 1 \<and>
   legacy_ns [0, 1 / 2000] 1 = Some 1 \<and>
   real_of_int \<lfloor>10 * ([0, 1 / 2000] ! 1 - [0, 1 / 2000] ! 0) / 1 - 0.01 :: real\<rfloor> + 1 = 0"
proof -
  have "\<lfloor>- (1 / 200) :: real\<rfloor> = - 1" by (simp add: floor_eq_iff)
  then show ?thesis
    by (simp add: legacy_ns_eval int_cast_small)
qed

text \<open>
  C7, amended. The legacy file, for \<open>period > 0\<close>, \<open>times[1] > times[0]\<close> and
  \<open>x = 10 * dt / period - 0.01\<close> below \<open>2^31\<close> with \<open>dt = times[1] - times[0]\<close>:
  the sub-step count is \<open>ns = 1\<close> when \<open>x < 0\<close> and \<open>ns = floor x + 1\<close> otherwise;
  the constants of the call are those of the step \<open>dt / ns\<close>; and the values stored at
  every step \<open>k \<le> np - 2\<close> are those of one step from \<open>sdis[k-1]\<close> and \<open>svel[k-1]\<close>
  (zero at step 0) with \<open>g = acc[k]\<close> and \<open>dug = (acc[k+1] - acc[k]) / ns\<close>.
\<close>

theorem C7_legacy_substeps:
  assumes "0 < period" and "tms ! 0 < tms ! 1" and "2 \<le> length tms"
    and "10 * (tms ! 1 - tms ! 0) / period - 0.01 < 2147483648"
    and "2 \<le> np" and "np \<le> int (length acc)"
    and "np - 1 \<le> int (length sacc0)" and "np - 1 \<le> int (length svel0)"
    and "np - 1 \<le> int (length sdis0)"
    and "int k \<le> np - 2"
  shows "let dt = tms ! 1 - tms ! 0;
             x = 10 * dt / period - 0.01;
             ns = real_of_int (if x < 0 then 0 else \<lfloor>x\<rfloor>) + 1;
             c = osc_constants (dt / ns) period damping
         in legacy_dt_in tms = Some dt \<and> legacy_ns tms period = Some ns \<and>
            (\<exists>out. calculate_spectrals_c_legacy tms acc np period damping sacc0 svel0 sdis0 = Some out \<and>
               (sdis out ! k, svel out ! k, sacc out ! k) =
                 osc_step c (if k = 0 then 0 else sdis out ! (k - 1))
                   (if k = 0 then 0 else svel out ! (k - 1))
                   (acc ! k) ((acc ! (k + 1) - acc ! k) / ns))"
proof -
  define dt where "dt = tms ! 1 - tms ! 0"
  define x where "x = 10 * dt / period - 0.01"
  define ns where "ns = real_of_int (if x < 0 then 0 else \<lfloor>x\<rfloor>) + 1"
  have "0 < 10 * dt / period" using assms(1,2) by (simp add: dt_def)
  then have "- 1 < x" by (simp add: x_def)
  moreover have "x < 2147483648" using assms(4) by (simp add: x_def dt_def)
  ultimately have "int_cast x = Some (if x < 0 then 0 else \<lfloor>x\<rfloor>)"
    by (rule int_cast_nonneg)
  then have ns: "legacy_ns tms period = Some ns"
    unfolding legacy_ns_eval[OF assms(3)] ns_def x_def dt_def by simp
  obtain out where run: "calculate_spectrals_c_legacy tms acc np period damping sacc0 svel0 sdis0 = Some out"
    and inv: "osc_inv (osc_constants (dt / ns) period damping) ns acc
           \<lparr>sacc = sacc0, svel = svel0, sdis = sdis0\<rparr> (np - 1) out"
    using legacy_run[OF ns, of np acc sdis0 svel0 sacc0 damping] assms unfolding dt_def by blast
  have "int k < np - 1" using assms(10) by simp
  note rec = osc_inv_recurrence[OF inv this]
  have "legacy_dt_in tms = Some dt"
    using legacy_ns_Some[OF ns] by (simp add: dt_def)
  then show ?thesis
    using ns run rec unfolding Let_def dt_def[symmetric] x_def[symmetric] ns_def[symmetric]
    by blast
qed

theorem C7_legacy_substeps_witness:
  "legacy_ns [0, 1 / 2000, 2 / 2000] 1 = Some 1 \<and>
   legacy_ns [0, 1 / 4, 2 / 4] 1 = Some 3"
proof -
  have "\<lfloor>249 / 100 :: real\<rfloor> = 2" by (simp add: floor_eq_iff)
  then show ?thesis
    using C7_legacy_substeps[of 1 "[0, 1 / 2000, 2 / 2000]" 3 "[0, 1, 0]" "[7, 7, 7]" "[8, 8, 8]"
        "[9, 9, 9]" 1 "1 / 20"]
      C7_legacy_substeps[of 1 "[0, 1 / 4, 2 / 4]" 3 "[0, 1, 0]" "[7, 7, 7]" "[8, 8, 8]"
        "[9, 9, 9]" 1 "1 / 20"]
    by (simp add: Let_def)
qed

text \<open>
  C8. When the sub-step count of the legacy file is \<open>1\<close>, on buffers that hold the
  \<open>np \<ge> 2\<close> samples and the \<open>np - 1\<close> results, the legacy call and the call of the
  current file with \<open>dt = times[1] - times[0]\<close> both return, with the same three buffers.
  (For \<open>period > 0\<close> and \<open>times[1] > times[0]\<close> the count is \<open>1\<close> exactly when
  \<open>10 * dt / period - 0.01 < 1\<close>: lemma \<open>legacy_ns_one_iff\<close>.)
\<close>

theorem C8_legacy_with_one_substep:
  assumes "legacy_ns tms period = Some 1"
    and "2 \<le> np" and "np \<le> int (length acc)"
    and "np - 1 \<le> int (length sacc0)" and "np - 1 \<le> int (length svel0)"
    and "np - 1 \<le> int (length sdis0)"
  shows "\<exists>out. calculate_spectrals_c_legacy tms acc np period damping sacc0 svel0 sdis0 = Some out \<and>
           calculate_spectrals_c acc np (tms ! 1 - tms ! 0) period damping sacc0 svel0 sdis0 = Some out"
proof -
  have "calculate_spectrals_c_legacy tms acc np period damping sacc0 svel0 sdis0 =
        calculate_spectrals_c acc np (tms ! 1 - tms ! 0) period damping sacc0 svel0 sdis0"
    by (simp add: calculate_spectrals_c_legacy_def calculate_spectrals_c_def assms(1)
        legacy_ns_Some[OF assms(1)] first_step_as_legacy loop_step_as_legacy Let_def)
  then show ?thesis
    using current_run[of np acc sdis0 svel0 sacc0 "tms ! 1 - tms ! 0" period damping] assms
    by auto
qed

theorem C8_legacy_with_one_substep_witness:
  "\<exists>out. calculate_spectrals_c_legacy [0, 1 / 100, 2 / 100, 3 / 100] [0, 1, 1, 0] 4 1 (1 / 20)
            [7, 7, 7, 7] [8, 8, 8, 8] [9, 9, 9, 9] = Some out \<and>
          calculate_spectrals_c [0, 1, 1, 0] 4 (1 / 100) 1 (1 / 20)
            [7, 7, 7, 7] [8, 8, 8, 8] [9, 9, 9, 9] = Some out"
proof -
  have ns: "legacy_ns [0, 1 / 100, 2 / 100, 3 / 100] 1 = Some 1"
    by (simp add: legacy_ns_eval int_cast_small)
  show ?thesis
    using C8_legacy_with_one_substep[OF ns, of 4 "[0, 1, 1, 0]" "[7, 7, 7, 7]" "[8, 8, 8, 8]"
        "[9, 9, 9, 9]" "1 / 20"]
    by simp
qed


section \<open>The smoother: what a call leaves in the buffer\<close>

lemma ko_members_finite [simp]: "finite (ko_members freqs n max_ratio min_ratio fc)"
  by (simp add: ko_members_def)

lemma ko_members_0 [simp]: "ko_members freqs 0 max_ratio min_ratio fc = {}"
  by (simp add: ko_members_def)

lemma ko_members_Suc:
  "ko_members freqs (Suc n) max_ratio min_ratio fc =
     (if ko_in_window max_ratio min_ratio fc (freqs ! n)
      then insert n (ko_members freqs n max_ratio min_ratio fc)
      else ko_members freqs n max_ratio min_ratio fc)"
  by (auto simp: ko_members_def less_Suc_eq)

lemma ko_members_notin [simp]: "n \<notin> ko_members freqs n max_ratio min_ratio fc"
  by (simp add: ko_members_def)

lemma ko_sums_0 [simp]: "ko_sums spec freqs 0 bandwidth max_ratio min_ratio fc = (0, 0)"
  by (simp add: ko_sums_def)

lemma ko_sums_Suc:
  "ko_sums spec freqs (Suc n) bandwidth max_ratio min_ratio fc =
     (case ko_sums spec freqs n bandwidth max_ratio min_ratio fc of (tot, window_total) \<Rightarrow>
        if ko_in_window max_ratio min_ratio fc (freqs ! n)
        then (tot + ko_weight bandwidth fc (freqs ! n) * spec ! n,
              window_total + ko_weight bandwidth fc (freqs ! n))
        else (tot, window_total))"
  by (simp add: ko_sums_def ko_members_Suc)

lemma ko_inner_step_weight:
  "ko_inner_step spec freqs bandwidth max_ratio min_ratio fc j (t, wt) =
     do {
       freq \<leftarrow> rd freqs j;
       if freq < 0.000001 \<or> freq / fc > max_ratio \<or> freq / fc < min_ratio
       then Some (t, wt)
       else do {
         sp \<leftarrow> rd spec j;
         Some (t + ko_weight bandwidth fc freq * sp, wt + ko_weight bandwidth fc freq)
       }
     }"
  by (cases "rd freqs j")
     (auto simp: ko_inner_step_def Let_def ko_weight_def power4_eq_xxxx mult.assoc)

lemma ko_in_window_code:
  "ko_in_window max_ratio min_ratio fc freq \<longleftrightarrow>
     \<not> (freq < 0.000001 \<or> freq / fc > max_ratio \<or> freq / fc < min_ratio)"
  by (auto simp: ko_in_window_def)

lemma ko_inner_step_eq:
  assumes "int n < int (length freqs)"
    and "ko_in_window max_ratio min_ratio fc (freqs ! n) \<Longrightarrow> n < length spec"
  shows "ko_inner_step spec freqs bandwidth max_ratio min_ratio fc (int n)
           (ko_sums spec freqs n bandwidth max_ratio min_ratio fc) =
         Some (ko_sums spec freqs (Suc n) bandwidth max_ratio min_ratio fc)"
proof -
  obtain t wt where s: "ko_sums spec freqs n bandwidth max_ratio min_ratio fc = (t, wt)"
    by (cases "ko_sums spec freqs n bandwidth max_ratio min_ratio fc")
  have r: "rd freqs (int n) = Some (freqs ! n)" using assms(1) by (simp add: rd_def)
  show ?thesis
  proof (cases "ko_in_window max_ratio min_ratio fc (freqs ! n)")
    case True
    have "rd spec (int n) = Some (spec ! n)" using assms(2)[OF True] by (simp add: rd_def)
    then show ?thesis
      using True r unfolding s ko_inner_step_weight ko_sums_Suc
      by (simp add: ko_in_window_code)
  next
    case False
    then show ?thesis
      using r unfolding s ko_inner_step_weight ko_sums_Suc
      by (simp add: ko_in_window_code)
  qed
qed

lemma ko_accumulate_eq:
  assumes "np \<le> int (length freqs)" and "np \<le> int (length spec)"
  shows "ko_accumulate spec freqs np bandwidth max_ratio min_ratio fc =
           Some (ko_sums spec freqs (nat np) bandwidth max_ratio min_ratio fc)"
proof (cases "0 \<le> np")
  case False
  then show ?thesis by (simp add: ko_accumulate_def for_loop_done)
next
  case True
  have "\<exists>s'. for_loop (ko_inner_step spec freqs bandwidth max_ratio min_ratio fc) np 0 (0, 0) = Some s'
          \<and> s' = ko_sums spec freqs (nat np) bandwidth max_ratio min_ratio fc"
  proof (rule for_loop_invariant[where I = "\<lambda>k s. s = ko_sums spec freqs (nat k) bandwidth max_ratio min_ratio fc"])
    show "(0, 0) = ko_sums spec freqs (nat 0) bandwidth max_ratio min_ratio fc" by simp
    show "0 \<le> np" by (rule True)
    fix j t
    assume j: "0 \<le> j" "j < np" and t: "t = ko_sums spec freqs (nat j) bandwidth max_ratio min_ratio fc"
    have "ko_inner_step spec freqs bandwidth max_ratio min_ratio fc (int (nat j))
           (ko_sums spec freqs (nat j) bandwidth max_ratio min_ratio fc) =
          Some (ko_sums spec freqs (Suc (nat j)) bandwidth max_ratio min_ratio fc)"
      using j assms by (intro ko_inner_step_eq) auto
    moreover have "Suc (nat j) = nat (j + 1)" using j by simp
    ultimately show "\<exists>t'. ko_inner_step spec freqs bandwidth max_ratio min_ratio fc j t = Some t' \<and>
        t' = ko_sums spec freqs (nat (j + 1)) bandwidth max_ratio min_ratio fc"
      using j t by simp
  qed
  then show ?thesis by (auto simp: ko_accumulate_def)
qed

lemma ko_outer_step_skip:
  assumes "0 \<le> i" "i < int (length ko_freqs)" "ko_freqs ! nat i < 0.000001"
  shows "ko_outer_step spec freqs np ko_freqs bandwidth max_ratio min_ratio i buf = wr buf i NAN"
  using assms by (simp add: ko_outer_step_def rd_def)

lemma ko_outer_step_eq:
  assumes "0 \<le> i" "i < int (length ko_freqs)" "i < int (length buf)"
    and "np \<le> int (length freqs)" "np \<le> int (length spec)"
  shows "ko_outer_step spec freqs np ko_freqs bandwidth max_ratio min_ratio i buf =
           Some (buf[nat i := ko_value spec freqs np bandwidth max_ratio min_ratio (ko_freqs ! nat i)])"
proof -
  obtain t wt where s: "ko_sums spec freqs (nat np) bandwidth max_ratio min_ratio (ko_freqs ! nat i) = (t, wt)"
    by (cases "ko_sums spec freqs (nat np) bandwidth max_ratio min_ratio (ko_freqs ! nat i)")
  have "rd ko_freqs i = Some (ko_freqs ! nat i)" using assms(1,2) by (simp add: rd_def)
  then show ?thesis
    using assms(1,3) s
    by (simp add: ko_outer_step_def ko_accumulate_eq[OF assms(4,5)] ko_value_def ko_result_def wr_def)
qed

lemma konno_run:
  assumes "nko \<le> int (length ko_freqs)" "nko \<le> int (length buf)"
    and "np \<le> int (length freqs)" "np \<le> int (length spec)"
  shows "\<exists>out. konno_ohmachi_c spec freqs np ko_freqs buf nko bandwidth = Some out \<and>
           ko_inv spec freqs np ko_freqs bandwidth (10 powr (3 / bandwidth))
             (1 / 10 powr (3 / bandwidth)) buf nko out"
proof (cases "0 \<le> nko")
  case False
  then show ?thesis by (simp add: konno_ohmachi_c_def Let_def for_loop_done ko_inv_def)
next
  case True
  let ?maxr = "10 powr (3 / bandwidth)" and ?minr = "1 / 10 powr (3 / bandwidth)"
  have "\<exists>out. for_loop (ko_outer_step spec freqs np ko_freqs bandwidth ?maxr ?minr) nko 0 buf = Some out \<and>
          ko_inv spec freqs np ko_freqs bandwidth ?maxr ?minr buf nko out"
  proof (rule for_loop_invariant[where I = "ko_inv spec freqs np ko_freqs bandwidth ?maxr ?minr buf"])
    show "ko_inv spec freqs np ko_freqs bandwidth ?maxr ?minr buf 0 buf"
      by (simp add: ko_inv_def)
    show "0 \<le> nko" by (rule True)
    fix j t
    assume j: "0 \<le> j" "j < nko"
      and t: "ko_inv spec freqs np ko_freqs bandwidth ?maxr ?minr buf j t"
    have len: "length t = length buf" using t by (simp add: ko_inv_def)
    let ?t' = "t[nat j := ko_value spec freqs np bandwidth ?maxr ?minr (ko_freqs ! nat j)]"
    have "ko_outer_step spec freqs np ko_freqs bandwidth ?maxr ?minr j t = Some ?t'"
      using j assms len by (intro ko_outer_step_eq) auto
    moreover have "ko_inv spec freqs np ko_freqs bandwidth ?maxr ?minr buf (j + 1) ?t'"
      unfolding ko_inv_def
    proof (intro conjI allI impI)
      show "length ?t' = length buf" using len by simp
    next
      fix i assume "int i < j + 1"
      then have "i < nat j \<or> i = nat j" using j by linarith
      then show "?t' ! i = ko_value spec freqs np bandwidth ?maxr ?minr (ko_freqs ! i)"
      proof
        assume "i < nat j"
        then show ?thesis using t j by (simp add: ko_inv_def)
      next
        assume "i = nat j"
        then show ?thesis using j assms(2) len by simp
      qed
    next
      fix i assume "j + 1 \<le> int i"
      then show "?t' ! i = buf ! i" using t j by (simp add: ko_inv_def)
    qed
    ultimately show "\<exists>t'. ko_outer_step spec freqs np ko_freqs bandwidth ?maxr ?minr j t = Some t' \<and>
        ko_inv spec freqs np ko_freqs bandwidth ?maxr ?minr buf (j + 1) t'"
      by blast
  qed
  then show ?thesis by (simp add: konno_ohmachi_c_def Let_def)
qed

lemma konno_run_value:
  assumes "nko \<le> int (length ko_freqs)" "nko \<le> int (length buf)"
    and "np \<le> int (length freqs)" "np \<le> int (length spec)"
  shows "\<exists>out. konno_ohmachi_c spec freqs np ko_freqs buf nko bandwidth = Some out \<and>
           length out = length buf \<and>
           (\<forall>i. int i < nko \<longrightarrow>
              out ! i = ko_value spec freqs np bandwidth (10 powr (3 / bandwidth))
                          (1 / 10 powr (3 / bandwidth)) (ko_freqs ! i))"
  using konno_run[OF assms, of bandwidth] by (auto simp: ko_inv_def)

lemma ko_weight_bounds: "0 \<le> ko_weight bandwidth fc freq \<and> ko_weight bandwidth fc freq \<le> 1"
proof (cases "\<bar>freq - fc\<bar> < 0.000001")
  case True
  then show ?thesis by (simp add: ko_weight_def)
next
  case False
  define x where "x = bandwidth * log 10 (freq / fc)"
  have "\<bar>sin x / x\<bar> \<le> 1"
  proof (cases "x = 0")
    case True
    then show ?thesis by simp
  next
    case False
    have "\<bar>sin x\<bar> \<le> \<bar>x\<bar>" by (rule abs_sin_x_le_abs_x)
    then show ?thesis using False by (simp add: field_simps)
  qed
  then have "\<bar>sin x / x\<bar> ^ 4 \<le> 1" by (intro power_le_one) simp_all
  moreover have "\<bar>sin x / x\<bar> ^ 4 = (sin x / x) ^ 4" by (rule power_even_abs) simp
  moreover have "0 \<le> (sin x / x) ^ 4" by (rule zero_le_even_power) simp
  ultimately show ?thesis using False by (simp add: ko_weight_def x_def)
qed

lemma ko_window_total_ge:
  assumes "j < n" and "ko_in_window max_ratio min_ratio fc (freqs ! j)"
  shows "ko_weight bandwidth fc (freqs ! j) \<le> snd (ko_sums spec freqs n bandwidth max_ratio min_ratio fc)"
proof -
  have "j \<in> ko_members freqs n max_ratio min_ratio fc"
    using assms by (simp add: ko_members_def)
  then have "ko_weight bandwidth fc (freqs ! j) \<le>
      (\<Sum>j\<in>ko_members freqs n max_ratio min_ratio fc. ko_weight bandwidth fc (freqs ! j))"
    by (intro member_le_sum) (simp_all add: ko_weight_bounds)
  then show ?thesis by (simp add: ko_sums_def)
qed

lemma ko_sums_flat:
  assumes "\<And>j. j < n \<Longrightarrow> spec ! j = 1"
  shows "fst (ko_sums spec freqs n bandwidth max_ratio min_ratio fc) =
         snd (ko_sums spec freqs n bandwidth max_ratio min_ratio fc)"
proof -
  have "(\<Sum>j\<in>ko_members freqs n max_ratio min_ratio fc. ko_weight bandwidth fc (freqs ! j) * spec ! j) =
        (\<Sum>j\<in>ko_members freqs n max_ratio min_ratio fc. ko_weight bandwidth fc (freqs ! j))"
    by (rule sum.cong) (simp_all add: ko_members_def assms)
  then show ?thesis by (simp add: ko_sums_def)
qed


lemma max_ratio_20: "1 \<le> (10::real) powr (3 / 20)" "(10::real) powr (3 / 20) < 10"
proof -
  show "1 \<le> (10::real) powr (3 / 20)" by (rule ge_one_powr_ge_zero) simp_all
  have "(10::real) powr (3 / 20) < 10 powr 1" by (rule powr_less_mono) simp_all
  then show "(10::real) powr (3 / 20) < 10" by simp
qed


lemma flat_example_total:
  "0 < snd (ko_sums [1, 1, 1, 1, 1] [1, 2, 3, 4, 5] 5 20 (10 powr (3 / 20)) (1 / 10 powr (3 / 20)) 3)"
proof -
  have "ko_weight 20 3 ([1, 2, 3, 4, 5] ! 2)
          \<le> snd (ko_sums [1, 1, 1, 1, 1] [1, 2, 3, 4, 5] 5 20 (10 powr (3 / 20)) (1 / 10 powr (3 / 20)) 3)"
    using max_ratio_20 by (intro ko_window_total_ge) (simp_all add: ko_in_window_def field_simps)
  then show ?thesis by (simp add: ko_weight_def)
qed

section \<open>Binary64 rounding, and the smoother at three nearby frequencies\<close>

lemma round_even_of_int [simp]: "round_even (of_int m) = m"
  by (simp add: round_even_def)


lemma rnd_eval:
  assumes "2 powi e \<le> x" and "x < 2 powi (e + 1)"
  shows "rnd x = of_int (round_even (x / 2 powi (e - 52))) * 2 powi (e - 52)"
proof -
  have pos: "0 < x" using assms(1) by (smt (verit) zero_less_power_int)
  have a: "(2::real) powr real_of_int e = 2 powi e"
    by (simp add: powr_real_of_int')
  have "(2::real) powr real_of_int (e + 1) = 2 powi (e + 1)"
    by (rule powr_real_of_int') simp_all
  then have b: "(2::real) powr (real_of_int e + 1) = 2 powi (e + 1)"
    by (simp add: add.commute)
  have "2 powr real_of_int e \<le> x \<and> x < 2 powr (real_of_int e + 1)"
    unfolding a b using assms by simp
  then have "\<lfloor>log 2 x\<rfloor> = e"
    using pos floor_log_eq_powr_iff[of x 2 e] by simp
  then show ?thesis using pos by (simp add: rnd_def Let_def)
qed


lemma rnd_exact:
  assumes "2 powi e \<le> x" and "x < 2 powi (e + 1)" and "x = of_int m * 2 powi (e - 52)"
  shows "rnd x = x"
  unfolding rnd_eval[OF assms(1,2)] by (subst (1 2) assms(3)) simp

lemma rnd_0 [simp]: "rnd 0 = 0"
  by (simp add: rnd_def)

lemma rnd_1 [simp]: "rnd 1 = 1"
  by (rule rnd_exact[where e = 0 and m = "2 ^ 52"]) simp_all

lemma rnd_2 [simp]: "rnd 2 = 2"
  by (rule rnd_exact[where e = 1 and m = "2 ^ 52"]) simp_all

lemma rnd_3 [simp]: "rnd 3 = 3"
  by (rule rnd_exact[where e = 1 and m = "3 * 2 ^ 51"]) simp_all








subsection \<open>The weights and the window of an example in exact arithmetic\<close>






section \<open>The smoother: properties\<close>





text \<open>
  C6. For every target index \<open>i\<close> with \<open>ko_freqs[i] < 1e-6\<close> the call returns with
  \<open>ko_smooth[i] = NAN\<close>, and the iteration for \<open>i\<close> is the single store of \<open>NAN\<close>
  whatever \<open>spec\<close>, \<open>freqs\<close> and \<open>np\<close> are (\<open>spec'\<close>, \<open>freqs'\<close>, \<open>np'\<close> are
  arbitrary, also shorter than \<open>np'\<close>, where any read would fail): no input pair is
  read.
\<close>

theorem C6_small_target_is_nan:
  assumes "ko_freqs ! i < 0.000001" and "int i < nko"
    and "nko \<le> int (length ko_freqs)" and "nko \<le> int (length ko_smooth)"
    and "np \<le> int (length freqs)" and "np \<le> int (length spec)"
  shows "(\<exists>out. konno_ohmachi_c spec freqs np ko_freqs ko_smooth nko bandwidth = Some out \<and>
                out ! i = NAN) \<and>
         ko_outer_step spec' freqs' np' ko_freqs bandwidth max_ratio min_ratio (int i) buf
           = wr buf (int i) NAN"
proof
  show "\<exists>out. konno_ohmachi_c spec freqs np ko_freqs ko_smooth nko bandwidth = Some out \<and> out ! i = NAN"
    using konno_run_value[OF assms(3,4,5,6), of bandwidth] assms(1,2)
    by (auto simp: ko_value_def)
  show "ko_outer_step spec' freqs' np' ko_freqs bandwidth max_ratio min_ratio (int i) buf
           = wr buf (int i) NAN"
    using assms(1,2,3) by (intro ko_outer_step_skip) auto
qed

theorem C6_small_target_is_nan_witness:
  "(\<exists>out. konno_ohmachi_c [5, 7] [1, 100] 2 [0, 3] [Val 0, Val 0] 2 20 = Some out \<and> out ! 0 = NAN) \<and>
   ko_outer_step [] [] 2 [0, 3] 20 2 (1 / 2) (int 0) [Val 0, Val 0] = Some [NAN, Val 0]"
  using C6_small_target_is_nan[of "[0, 3]" 0 2 "[Val 0, Val 0]" 2 "[1, 100]" "[5, 7]" 20
      "[]" "[]" 2 2 "1 / 2" "[Val 0, Val 0]"]
  by (simp add: wr_def)

text \<open>
  C9. For a spectrum whose \<open>np\<close> values are all \<open>1\<close>, every entry \<open>ko_smooth[i]\<close> whose
  \<open>window_total\<close> is positive is \<open>1\<close>. The witness is the scenario of the description:
  \<open>spec = [1,1,1,1,1]\<close>, \<open>freqs = [1,2,3,4,5]\<close>, \<open>ko_freqs = [3]\<close>, \<open>bandwidth = 20\<close>.
\<close>

theorem C9_flat_spectrum:
  assumes "\<And>j. int j < np \<Longrightarrow> spec ! j = 1"
    and "0.000001 \<le> ko_freqs ! i" and "int i < nko"
    and "nko \<le> int (length ko_freqs)" and "nko \<le> int (length ko_smooth)"
    and "np \<le> int (length freqs)" and "np \<le> int (length spec)"
  shows "\<exists>out tot window_total.
           konno_ohmachi_c spec freqs np ko_freqs ko_smooth nko bandwidth = Some out \<and>
           ko_accumulate spec freqs np bandwidth (10 powr (3 / bandwidth))
             (1 / 10 powr (3 / bandwidth)) (ko_freqs ! i) = Some (tot, window_total) \<and>
           (0 < window_total \<longrightarrow> out ! i = Val 1)"
proof -
  let ?maxr = "10 powr (3 / bandwidth)"
  let ?s = "ko_sums spec freqs (nat np) bandwidth ?maxr (1 / ?maxr) (ko_freqs ! i)"
  obtain out where out: "konno_ohmachi_c spec freqs np ko_freqs ko_smooth nko bandwidth = Some out"
    "out ! i = ko_value spec freqs np bandwidth ?maxr (1 / ?maxr) (ko_freqs ! i)"
    using konno_run_value[OF assms(4,5,6,7), of bandwidth] assms(3) by blast
  have "fst ?s = snd ?s"
    by (rule ko_sums_flat) (simp add: assms(1))
  then have "0 < snd ?s \<longrightarrow> out ! i = Val 1"
    using out(2) assms(2) by (simp add: ko_value_def ko_result_def split_beta)
  moreover have "ko_accumulate spec freqs np bandwidth ?maxr (1 / ?maxr) (ko_freqs ! i)
      = Some (fst ?s, snd ?s)"
    by (simp add: ko_accumulate_eq[OF assms(6,7)])
  ultimately show ?thesis using out(1) by blast
qed

theorem C9_flat_spectrum_witness:
  "\<exists>out. konno_ohmachi_c [1, 1, 1, 1, 1] [1, 2, 3, 4, 5] 5 [3] [NAN] 1 20 = Some out \<and>
          out ! 0 = Val 1"
proof -
  have flat: "\<And>j. int j < 5 \<Longrightarrow> [1, 1, 1, 1, 1 :: real] ! j = 1"
    by (simp add: nth_Cons split: nat.splits)
  have a: "ko_accumulate [1, 1, 1, 1, 1] [1, 2, 3, 4, 5] 5 20 (10 powr (3 / 20))
             (1 / 10 powr (3 / 20)) 3 =
           Some (ko_sums [1, 1, 1, 1, 1] [1, 2, 3, 4, 5] 5 20 (10 powr (3 / 20)) (1 / 10 powr (3 / 20)) 3)"
    using ko_accumulate_eq[of 5 "[1, 2, 3, 4, 5]" "[1, 1, 1, 1, 1]" 20] by simp
  show ?thesis
    using C9_flat_spectrum[of 5 "[1, 1, 1, 1, 1]" "[3]" 0 1 "[NAN]" "[1, 2, 3, 4, 5]" 20, OF flat]
      flat_example_total
    by (auto simp: a)
qed




end
